theory Spec2Isabelle
  imports Main "HOL-Library.Log_Nat"
begin

section \<open>The worker's Fibonacci function\<close>

text \<open>
  The worker computes with JavaScript numbers (IEEE doubles). Every value the loop
  of \<open>fib\<close> touches for an index of at most 40 is an integer below \<open>2 ^ 53\<close>
  (lemma \<open>fib_exact_range\<close> below), where double addition is exact, so the numbers are
  modelled as \<open>int\<close>.

  \<^verbatim>\<open>
  function fib(index) {
    if (index < 2) return 1;
    let prev = 1;
    let current = 1;
    for (let i = 2; i <= index; i++) {
      const next = prev + current;
      prev = current;
      current = next;
    }
    return current;
  }
  \<close>
\<close>

function fib_loop :: "int \<Rightarrow> int \<Rightarrow> int \<Rightarrow> int \<Rightarrow> int" where
  "fib_loop i index prev current =
     (if i \<le> index then fib_loop (i + 1) index current (prev + current) else current)"
  by pat_completeness auto
termination
  by (relation "measure (\<lambda>(i, index, prev, current). nat (index + 1 - i))") auto

declare fib_loop.simps [simp del]

definition fib :: "int \<Rightarrow> int" where
  "fib index = (if index < 2 then 1 else fib_loop 2 index 1 1)"

text \<open>
  The recurrence in the specification's words: two accumulators seeded at 1, 1; one
  step \<open>next = a + b; a = b; b = next\<close> for each step from 2 to the index inclusive;
  1 unmodified below 2.
\<close>

definition spec_step :: "int \<Rightarrow> int \<times> int \<Rightarrow> int \<times> int" where
  "spec_step k ab = (case ab of (a, b) \<Rightarrow> (b, a + b))"

definition fib_spec :: "int \<Rightarrow> int" where
  "fib_spec i = (if i < 2 then 1 else snd (fold spec_step [2..i] (1, 1)))"

section \<open>JavaScript values\<close>

text \<open>
  A JavaScript string is a sequence of UTF-16 code units; code units are modelled as
  integers, and \<open>js\<close> turns an ASCII literal into such a sequence.
\<close>

type_synonym jsstring = "int list"

definition js :: "string \<Rightarrow> jsstring" where
  "js s = map of_char s"

text \<open>
  A JavaScript number is an IEEE double: not-a-number, an infinity, or a finite value,
  which is a rational. Negative zero is identified with zero: the program only
  compares numbers (\<open><\<close>, \<open>>\<close>, \<open>!==\<close>) and converts them to strings, and
  \<open>-0 < 0\<close>, \<open>-0 > 40\<close>, \<open>-0 !== 0\<close> are all false and \<open>(-0).toString()\<close> is
  \<open>"0"\<close>, so the two zeros behave alike everywhere here.
\<close>

datatype jsnum = NaN | PInf | NInf | Fin rat

definition isNaN :: "jsnum \<Rightarrow> bool" where
  "isNaN x = (x = NaN)"

fun js_lt :: "jsnum \<Rightarrow> jsnum \<Rightarrow> bool" where
  "js_lt NaN y = False"
| "js_lt x NaN = False"
| "js_lt PInf y = False"
| "js_lt x NInf = False"
| "js_lt NInf y = True"
| "js_lt x PInf = True"
| "js_lt (Fin a) (Fin b) = (a < b)"

definition js_gt :: "jsnum \<Rightarrow> jsnum \<Rightarrow> bool" where
  "js_gt x y = js_lt y x"

definition js_strict_neq :: "jsnum \<Rightarrow> jsnum \<Rightarrow> bool" where
  "js_strict_neq x y = (x = NaN \<or> y = NaN \<or> x \<noteq> y)"

subsection \<open>Rounding a decimal value to a double\<close>

text \<open>
  \<open>round_half_even n d\<close> is the integer nearest to \<open>n / d\<close>, ties to even.
  \<open>ilog2 n d\<close> is the binary exponent \<open>\<lfloor>log\<^sub>2 (n / d)\<rfloor>\<close> of a positive fraction.
  \<open>to_double neg n d\<close> is the double nearest to \<open>\<plusminus> n / d\<close> (53 significant bits,
  least exponent \<open>-1074\<close>, overflow to infinity from \<open>2 ^ 1024\<close>), the conversion that
  \<open>parseInt\<close> and \<open>parseFloat\<close> apply to the mathematical value of the digits they
  read.
\<close>

definition round_half_even :: "int \<Rightarrow> int \<Rightarrow> int" where
  "round_half_even n d =
     (let q = n div d; r = n mod d
      in if 2 * r < d then q
         else if d < 2 * r then q + 1
         else if even q then q else q + 1)"

definition ilog2 :: "int \<Rightarrow> int \<Rightarrow> int" where
  "ilog2 n d =
     (let k = bitlen n - bitlen d
      in if (if 0 \<le> k then d * 2 ^ nat k \<le> n else d \<le> n * 2 ^ nat (- k)) then k else k - 1)"

definition to_double :: "bool \<Rightarrow> int \<Rightarrow> int \<Rightarrow> jsnum" where
  "to_double neg n d =
     (if n = 0 then Fin 0
      else
        let p = max (ilog2 n d - 52) (- 1074);
            m = (if 0 \<le> p then round_half_even n (d * 2 ^ nat p)
                 else round_half_even (n * 2 ^ nat (- p)) d)
        in if 0 \<le> p \<and> 2 ^ 1024 \<le> m * 2 ^ nat p then (if neg then NInf else PInf)
           else Fin ((if neg then - 1 else 1) * of_int m *
                     (if 0 \<le> p then 2 ^ nat p else 1 / 2 ^ nat (- p))))"

subsection \<open>\<open>parseInt(string, 10)\<close> and \<open>parseFloat(string)\<close>\<close>

definition is_ws :: "int \<Rightarrow> bool" where
  \<comment> \<open>white space and line terminators, as \<open>TrimString\<close> strips them\<close>
  "is_ws c = (c \<in> set [0x09, 0x0A, 0x0B, 0x0C, 0x0D, 0x20, 0xA0, 0x1680, 0x2000, 0x2001,
     0x2002, 0x2003, 0x2004, 0x2005, 0x2006, 0x2007, 0x2008, 0x2009, 0x200A, 0x2028,
     0x2029, 0x202F, 0x205F, 0x3000, 0xFEFF])"

definition is_digit :: "int \<Rightarrow> bool" where
  "is_digit c = (48 \<le> c \<and> c \<le> 57)"

definition digits_value :: "jsstring \<Rightarrow> int" where
  "digits_value ds = foldl (\<lambda>a c. 10 * a + (c - 48)) 0 ds"

text \<open>
  \<open>parseInt(s, 10)\<close>: strip leading white space, take an optional sign, read the
  longest run of decimal digits; no digit gives \<open>NaN\<close>; anything after the digits is
  ignored.
\<close>

definition strip_sign :: "jsstring \<Rightarrow> bool \<times> jsstring" where
  "strip_sign s =
     (case s of
        [] \<Rightarrow> (False, [])
      | c # cs \<Rightarrow>
          if c = of_char CHR ''-'' then (True, cs)
          else if c = of_char CHR ''+'' then (False, cs)
          else (False, s))"

definition parseInt :: "jsstring \<Rightarrow> jsnum" where
  "parseInt s =
     (case strip_sign (dropWhile is_ws s) of
        (neg, t) \<Rightarrow>
          let z = takeWhile is_digit t
          in if z = [] then NaN else to_double neg (digits_value z) 1)"

text \<open>
  \<open>parseFloat(s)\<close>: strip leading white space, then read the longest prefix that is a
  \<open>StrDecimalLiteral\<close>: an optional sign, then \<open>Infinity\<close>, or digits with an optional
  fraction, or a fraction alone, each with an optional exponent part; an exponent
  indicator that no digit follows is not part of the literal.
\<close>

definition exponent_part :: "jsstring \<Rightarrow> int" where
  "exponent_part s =
     (case s of
        [] \<Rightarrow> 0
      | c # cs \<Rightarrow>
          if c = of_char CHR ''e'' \<or> c = of_char CHR ''E'' then
            (case strip_sign cs of
               (neg, t) \<Rightarrow>
                 let ds = takeWhile is_digit t
                 in if ds = [] then 0
                    else if neg then - digits_value ds else digits_value ds)
          else 0)"

definition decimal_value :: "bool \<Rightarrow> jsstring \<Rightarrow> int \<Rightarrow> jsnum" where
  \<comment> \<open>the double for mantissa digits \<open>ds\<close> scaled by \<open>10 ^ ex\<close>\<close>
  "decimal_value neg ds ex =
     (if 0 \<le> ex then to_double neg (digits_value ds * 10 ^ nat ex) 1
      else to_double neg (digits_value ds) (10 ^ nat (- ex)))"

definition parseFloat :: "jsstring \<Rightarrow> jsnum" where
  "parseFloat s =
     (case strip_sign (dropWhile is_ws s) of
        (neg, t) \<Rightarrow>
          if take 8 t = js ''Infinity'' then (if neg then NInf else PInf)
          else
            let ip = takeWhile is_digit t; r = dropWhile is_digit t
            in (case r of
                  c # cs \<Rightarrow>
                    if c = of_char CHR ''.'' then
                      let fp = takeWhile is_digit cs; r' = dropWhile is_digit cs
                      in if ip = [] \<and> fp = [] then NaN
                         else decimal_value neg (ip @ fp) (exponent_part r' - int (length fp))
                    else if ip = [] then NaN
                    else decimal_value neg ip (exponent_part r)
                | [] \<Rightarrow> if ip = [] then NaN else decimal_value neg ip 0))"

subsection \<open>Number to string\<close>

function decimal_digits :: "int \<Rightarrow> jsstring" where
  "decimal_digits n =
     (if n < 10 then [48 + n] else decimal_digits (n div 10) @ [48 + n mod 10])"
  by pat_completeness auto
termination
  by (relation "measure nat") auto

declare decimal_digits.simps [simp del]

definition int_toString :: "int \<Rightarrow> jsstring" where
  "int_toString z =
     (if z < 0 then of_char CHR ''-'' # decimal_digits (- z) else decimal_digits z)"

text \<open>
  \<open>Number.prototype.toString\<close> on a number with an integer value. Below \<open>2 ^ 53\<close> the
  string is the decimal digits of the integer. From there on it is the decimal with the
  fewest significant digits that still rounds to the number (the closest one, if there
  are several), written out with zeros up to 21 digits and in exponent form
  (\<open>1e+21\<close>, \<open>1.2345678901234568e+22\<close>) beyond. The program applies it to an
  accepted index (an integer from 0 to 40, lemmas \<open>parseInt_in_range\<close> and
  \<open>in_range_toString\<close>), and \<open>int_toString\<close> to a value of \<open>fib\<close> (lemma
  \<open>fib_exact_range\<close>); numbers with a fraction are not modelled.
\<close>

definition rounds_to :: "int \<Rightarrow> int \<Rightarrow> bool" where
  "rounds_to c v = (to_double False c 1 = Fin (of_int v))"

definition shortest_decimal :: "int \<Rightarrow> int" where
  "shortest_decimal v =
     (let n = length (decimal_digits v);
          candidates = concat (map (\<lambda>k.
            let scale = 10 ^ (n - k); lo = v div scale * scale; hi = lo + scale
            in if v - lo < hi - v then [lo, hi]
               else if hi - v < v - lo then [hi, lo]
               else if even (v div scale) then [lo, hi] else [hi, lo]) [1..<n])
      in case find (\<lambda>c. rounds_to c v) candidates of Some c \<Rightarrow> c | None \<Rightarrow> v)"

definition large_toString :: "int \<Rightarrow> jsstring" where
  "large_toString v =
     (let ds = decimal_digits (shortest_decimal v); n = length ds
      in if n \<le> 21 then ds
         else
           (case rev (dropWhile (\<lambda>d. d = 48) (rev ds)) of
              [] \<Rightarrow> ds
            | d # rest \<Rightarrow>
                (if rest = [] then [d] else d # of_char CHR ''.'' # rest) @ js ''e+'' @
                decimal_digits (int n - 1)))"

definition int_of_num :: "jsnum \<Rightarrow> int" where
  "int_of_num x = (case x of Fin q \<Rightarrow> \<lfloor>q\<rfloor> | _ \<Rightarrow> 0)"

definition number_toString :: "jsnum \<Rightarrow> jsstring" where
  "number_toString x =
     (case x of
        NaN \<Rightarrow> js ''NaN''
      | PInf \<Rightarrow> js ''Infinity''
      | NInf \<Rightarrow> js ''-Infinity''
      | Fin q \<Rightarrow>
          if \<bar>\<lfloor>q\<rfloor>\<bar> < 2 ^ 53 then int_toString \<lfloor>q\<rfloor>
          else if q < 0 then of_char CHR ''-'' # large_toString (- \<lfloor>q\<rfloor>)
          else large_toString \<lfloor>q\<rfloor>)"

text \<open>
  The \<open>index\<close> field of a request body, after \<open>bodyParser.json()\<close>: absent
  (\<open>undefined\<close>), \<open>null\<close>, a boolean, a number or a string. \<open>JNum z\<close> is a JSON
  number with the integer value \<open>z\<close>: as a JavaScript number it is the double nearest
  to \<open>z\<close>. JSON numbers with a fraction, arrays and objects are not modelled.
  \<open>ToString\<close> is the conversion \<open>parseInt\<close> and \<open>parseFloat\<close> apply to their
  argument first.
\<close>

datatype jsvalue = JUndefined | JNull | JBool bool | JNum int | JStr jsstring

definition ToString :: "jsvalue \<Rightarrow> jsstring" where
  "ToString v =
     (case v of
        JUndefined \<Rightarrow> js ''undefined''
      | JNull \<Rightarrow> js ''null''
      | JBool b \<Rightarrow> (if b then js ''true'' else js ''false'')
      | JNum z \<Rightarrow> number_toString (to_double (z < 0) \<bar>z\<bar> 1)
      | JStr s \<Rightarrow> s)"

section \<open>The stores\<close>

text \<open>
  The Result Cache is the Redis hash \<open>values\<close>, the Event Channel the Redis channel
  \<open>insert\<close> (modelled by the sequence of messages published so far), the Durable
  Ledger the table \<open>values(id SERIAL PRIMARY KEY, number INTEGER NOT NULL UNIQUE,
  created_at)\<close>; the wall-clock column \<open>created_at\<close> is left out. The worker's
  console output is kept as a log.

  A store operation either succeeds or rejects; a rejecting operation throws and leaves
  its store as it was. Which operations of a request reject is an input of the model.
\<close>

datatype error = RedisError | PgError

record ledger_row =
  row_id :: nat
  number :: int

datatype log_entry =
    InvalidMessage jsstring
  | Calculating jsnum
  | Calculated jsnum int
  | ProcessingError error

record store =
  cache :: "jsstring \<rightharpoonup> jsstring"
  published :: "jsstring list"
  ledger :: "ledger_row list"
  next_id :: nat
  worker_log :: "log_entry list"

record faults =
  hSet_rejects :: bool
  publish_rejects :: bool
  query_rejects :: bool

definition hSet :: "bool \<Rightarrow> jsstring \<Rightarrow> jsstring \<Rightarrow> store \<Rightarrow> error + store" where
  \<comment> \<open>\<open>redisClient.hSet('values', field, value)\<close>\<close>
  "hSet rejects field v s =
     (if rejects then Inl RedisError else Inr (s\<lparr>cache := (cache s)(field \<mapsto> v)\<rparr>))"

definition publish :: "bool \<Rightarrow> jsstring \<Rightarrow> store \<Rightarrow> error + store" where
  \<comment> \<open>\<open>redisPublisher.publish('insert', message)\<close>\<close>
  "publish rejects msg s =
     (if rejects then Inl RedisError else Inr (s\<lparr>published := published s @ [msg]\<rparr>))"

definition insert_value :: "bool \<Rightarrow> int \<Rightarrow> store \<Rightarrow> error + store" where
  \<comment> \<open>\<open>INSERT INTO values(number) VALUES($1) ON CONFLICT (number) DO NOTHING\<close>; the
      sequence behind \<open>id\<close> advances also when the row is not inserted\<close>
  "insert_value rejects n s =
     (if rejects then Inl PgError
      else if n \<in> set (map number (ledger s))
        then Inr (s\<lparr>next_id := next_id s + 1\<rparr>)
        else Inr (s\<lparr>ledger := ledger s @ [\<lparr>row_id = next_id s, number = n\<rparr>],
                    next_id := next_id s + 1\<rparr>))"

section \<open>The gateway: \<open>POST /values\<close>\<close>

datatype response_body =
    ErrorBody jsstring
  | Accepted bool jsnum jsstring

record response =
  status :: nat
  body :: response_body

definition reject :: "nat \<Rightarrow> string \<Rightarrow> response" where
  \<comment> \<open>\<open>res.status(code).json({ error: text })\<close>\<close>
  "reject code text = \<lparr>status = code, body = ErrorBody (js text)\<rparr>"

text \<open>
  \<^verbatim>\<open>
  app.post('/values', async (req, res) => {
    const index = req.body.index;
    if (index === undefined || index === null || index === '') {
      return res.status(400).json({ error: 'Index is required' });
    }
    const parsedIndex = parseInt(index, 10);
    if (isNaN(parsedIndex)) {
      return res.status(400).json({ error: 'Index must be a valid number' });
    }
    if (parsedIndex < 0) {
      return res.status(400).json({ error: 'Index must be non-negative' });
    }
    if (parsedIndex > 40) {
      return res.status(422).json({ error: 'Index too high (maximum: 40)' });
    }
    if (parsedIndex !== parseFloat(index)) {
      return res.status(400).json({ error: 'Index must be an integer' });
    }
    try {
      await redisClient.hSet('values', parsedIndex.toString(), 'Calculating...');
      await redisPublisher.publish('insert', parsedIndex.toString());
      await pgClient.query('INSERT ... ON CONFLICT (number) DO NOTHING', [parsedIndex]);
      res.status(201).json({ working: true, index: parsedIndex, message: 'Calculation started' });
    } catch (error) {
      res.status(500).json({ error: 'Internal server error while processing request' });
    }
  });
  \<close>
  The handler returns the response together with the stores as the request leaves them.
\<close>

definition internal_error :: response where
  "internal_error = reject 500 ''Internal server error while processing request''"

definition post_values :: "jsvalue \<Rightarrow> faults \<Rightarrow> store \<Rightarrow> response \<times> store" where
  "post_values index f s =
     (if index = JUndefined \<or> index = JNull \<or> index = JStr [] then
        (reject 400 ''Index is required'', s)
      else
        let parsedIndex = parseInt (ToString index)
        in if isNaN parsedIndex then (reject 400 ''Index must be a valid number'', s)
           else if js_lt parsedIndex (Fin 0) then (reject 400 ''Index must be non-negative'', s)
           else if js_gt parsedIndex (Fin 40) then
             (reject 422 ''Index too high (maximum: 40)'', s)
           else if js_strict_neq parsedIndex (parseFloat (ToString index)) then
             (reject 400 ''Index must be an integer'', s)
           else
             (case hSet (hSet_rejects f) (number_toString parsedIndex) (js ''Calculating...'') s of
                Inl e \<Rightarrow> (internal_error, s)
              | Inr s1 \<Rightarrow>
                  (case publish (publish_rejects f) (number_toString parsedIndex) s1 of
                     Inl e \<Rightarrow> (internal_error, s1)
                   | Inr s2 \<Rightarrow>
                       (case insert_value (query_rejects f) (int_of_num parsedIndex) s2 of
                          Inl e \<Rightarrow> (internal_error, s2)
                        | Inr s3 \<Rightarrow>
                            (\<lparr>status = 201,
                              body = Accepted True parsedIndex (js ''Calculation started'')\<rparr>,
                             s3)))))"

definition accepted_response :: "jsvalue \<Rightarrow> response" where
  \<comment> \<open>the handler's 201 response, for an index that passed validation\<close>
  "accepted_response index =
     \<lparr>status = 201,
      body = Accepted True (parseInt (ToString index)) (js ''Calculation started'')\<rparr>"

text \<open>
  The handler's five tests as a list, in the order the handler applies them, each with
  the rejection it gives; \<open>first_failure\<close> is the rejection of the first test that
  fires.
\<close>

datatype rejection = MissingInput | Malformed | BelowRange | AboveRange | NonInteger

definition handler_checks :: "jsvalue \<Rightarrow> (rejection \<times> bool) list" where
  "handler_checks index =
     [(MissingInput, index = JUndefined \<or> index = JNull \<or> index = JStr []),
      (Malformed, isNaN (parseInt (ToString index))),
      (BelowRange, js_lt (parseInt (ToString index)) (Fin 0)),
      (AboveRange, js_gt (parseInt (ToString index)) (Fin 40)),
      (NonInteger, js_strict_neq (parseInt (ToString index)) (parseFloat (ToString index)))]"

definition first_failure :: "jsvalue \<Rightarrow> rejection option" where
  "first_failure index = map_option fst (find snd (handler_checks index))"

definition rejection_response :: "rejection \<Rightarrow> response" where
  "rejection_response r =
     (case r of
        MissingInput \<Rightarrow> reject 400 ''Index is required''
      | Malformed \<Rightarrow> reject 400 ''Index must be a valid number''
      | BelowRange \<Rightarrow> reject 400 ''Index must be non-negative''
      | AboveRange \<Rightarrow> reject 422 ''Index too high (maximum: 40)''
      | NonInteger \<Rightarrow> reject 400 ''Index must be an integer'')"

section \<open>The input in the specification's words\<close>

text \<open>
  The notions the specification uses for a submitted index, stated on the text of the
  input and not through the handler's parsers. A plain decimal numeral is the whole
  text: an optional sign, decimal digits, and optionally a point followed by decimal
  digits; \<open>numeral\<close> gives its sign, integer digits and fraction digits. Its
  truncated base-10 parse is \<open>int_part\<close>, its exact, unrounded numeric value
  \<open>exact_value\<close>, and \<open>double_value\<close> is the double nearest to that value. A
  well-formed base-10 integer is a numeral without fraction. \<open>no_integer\<close> says that
  no integer can be read from the text at all: after white space and an optional sign
  it does not go on with a digit.
\<close>

definition numeral :: "jsstring \<Rightarrow> (bool \<times> jsstring \<times> jsstring) option" where
  "numeral s =
     (case strip_sign s of
        (neg, t) \<Rightarrow>
          let ip = takeWhile is_digit t; r = dropWhile is_digit t
          in if ip = [] then None
             else
               (case r of
                  [] \<Rightarrow> Some (neg, ip, [])
                | c # fp \<Rightarrow>
                    if c = of_char CHR ''.'' \<and> fp \<noteq> [] \<and> list_all is_digit fp
                    then Some (neg, ip, fp) else None))"

definition int_part :: "bool \<times> jsstring \<times> jsstring \<Rightarrow> int" where
  "int_part x = (case x of (neg, ip, fp) \<Rightarrow> if neg then - digits_value ip else digits_value ip)"

definition exact_value :: "bool \<times> jsstring \<times> jsstring \<Rightarrow> rat" where
  "exact_value x =
     (case x of (neg, ip, fp) \<Rightarrow>
        (if neg then - 1 else 1) * of_int (digits_value (ip @ fp)) / 10 ^ length fp)"

definition double_value :: "bool \<times> jsstring \<times> jsstring \<Rightarrow> jsnum" where
  "double_value x =
     (case x of (neg, ip, fp) \<Rightarrow> to_double neg (digits_value (ip @ fp)) (10 ^ length fp))"

definition no_integer :: "jsstring \<Rightarrow> bool" where
  "no_integer s =
     (case snd (strip_sign (dropWhile is_ws s)) of [] \<Rightarrow> True | c # cs \<Rightarrow> \<not> is_digit c)"

definition missing :: "jsvalue \<Rightarrow> bool" where
  "missing index = (index = JUndefined \<or> index = JNull \<or> index = JStr [])"

text \<open>
  The five checks of the specification in its words: (1) the field is absent, null or
  the empty string; (2) it is not parseable as a base-10 integer; (3) the parsed value
  is below 0; (4) the parsed value is above 40; (5) the parsed value is not exactly
  equal to the unrounded numeric value of the input. \<open>claim_first_failure\<close> is the
  rejection of the first check that fails.
\<close>

definition claim_checks :: "jsvalue \<Rightarrow> (rejection \<times> bool) list" where
  "claim_checks index =
     (let nm = numeral (ToString index)
      in [(MissingInput, missing index),
          (Malformed, nm = None),
          (BelowRange, case nm of Some x \<Rightarrow> int_part x < 0 | None \<Rightarrow> False),
          (AboveRange, case nm of Some x \<Rightarrow> 40 < int_part x | None \<Rightarrow> False),
          (NonInteger, case nm of Some x \<Rightarrow> exact_value x \<noteq> of_int (int_part x) | None \<Rightarrow> False)])"

definition claim_first_failure :: "jsvalue \<Rightarrow> rejection option" where
  "claim_first_failure index = map_option fst (find snd (claim_checks index))"

section \<open>The worker: the subscription to \<open>insert\<close>\<close>

text \<open>
  \<^verbatim>\<open>
  await sub.subscribe('insert', async (message) => {
    try {
      const index = parseInt(message, 10);
      if (isNaN(index) || index < 0 || index > 40) {
        console.error(`Invalid message received: ${message}`);
        return;
      }
      console.log(`Calculating Fibonacci for index: ${index}`);
      const result = fib(index);
      await redisClient.hSet('values', index.toString(), result.toString());
      console.log(`Successfully calculated fib(${index}) = ${result}`);
    } catch (error) {
      console.error('Error processing message:', error);
    }
  });
  \<close>
  A computation that may throw returns the error, if any, with the stores as they are
  at that point. \<open>handle_try\<close> is the body of the \<open>try\<close> block, \<open>on_message\<close> the
  whole listener, \<open>subscription\<close> the delivery of a sequence of messages, each with
  the fate of its cache write; a listener that threw would end it. Deliveries are
  taken one at a time, as the specification describes the worker: the only point where
  a listener call waits is the cache write, after which it only logs, so listener
  calls that overlap leave the same stores, with their log lines in another order.
\<close>

definition console :: "log_entry \<Rightarrow> store \<Rightarrow> store" where
  "console e s = s\<lparr>worker_log := worker_log s @ [e]\<rparr>"

definition handle_try :: "bool \<Rightarrow> jsstring \<Rightarrow> store \<Rightarrow> error option \<times> store" where
  "handle_try rejects message s =
     (let index = parseInt message
      in if isNaN index \<or> js_lt index (Fin 0) \<or> js_gt index (Fin 40) then
           (None, console (InvalidMessage message) s)
         else
           let s1 = console (Calculating index) s;
               result = fib (int_of_num index)
           in (case hSet rejects (number_toString index) (int_toString result) s1 of
                 Inl e \<Rightarrow> (Some e, s1)
               | Inr s2 \<Rightarrow> (None, console (Calculated index result) s2)))"

definition on_message :: "bool \<Rightarrow> jsstring \<Rightarrow> store \<Rightarrow> error option \<times> store" where
  "on_message rejects message s =
     (case handle_try rejects message s of
        (None, s') \<Rightarrow> (None, s')
      | (Some e, s') \<Rightarrow> (None, console (ProcessingError e) s'))"

fun subscription :: "(jsstring \<times> bool) list \<Rightarrow> store \<Rightarrow> error option \<times> store" where
  "subscription [] s = (None, s)"
| "subscription ((message, rejects) # ms) s =
     (case on_message rejects message s of
        (Some e, s') \<Rightarrow> (Some e, s')
      | (None, s') \<Rightarrow> subscription ms s')"

text \<open>
  The system as a whole: requests handled by the gateway and messages delivered to the
  worker, in any interleaving, act on the same stores.
\<close>

datatype event = Request jsvalue faults | Delivery jsstring bool

fun step :: "event \<Rightarrow> store \<Rightarrow> store" where
  "step (Request index f) s = snd (post_values index f s)"
| "step (Delivery message rejects) s = snd (on_message rejects message s)"

definition run :: "event list \<Rightarrow> store \<Rightarrow> store" where
  "run evs s = fold step evs s"

text \<open>
  The Result Cache invariant: a stored value is the placeholder, or the decimal string
  of \<open>fib k\<close> under the key that is the decimal string of an index \<open>k\<close> from 0 to 40.
\<close>

definition cache_ok :: "(jsstring \<rightharpoonup> jsstring) \<Rightarrow> bool" where
  "cache_ok c =
     (\<forall>key v. c key = Some v \<longrightarrow>
        v = js ''Calculating...'' \<or>
        (\<exists>k \<in> {0..40}. key = int_toString k \<and> v = int_toString (fib k)))"

text \<open>
  \<open>is_integer x\<close>: the number is finite with an integer value. \<open>index_in_range x\<close>:
  the number is an integer from 0 to 40.
\<close>

definition is_integer :: "jsnum \<Rightarrow> bool" where
  "is_integer x = (case x of Fin q \<Rightarrow> q = of_int \<lfloor>q\<rfloor> | _ \<Rightarrow> False)"

definition index_in_range :: "jsnum \<Rightarrow> bool" where
  "index_in_range x = (case x of Fin q \<Rightarrow> 0 \<le> q \<and> q \<le> 40 \<and> q = of_int \<lfloor>q\<rfloor> | _ \<Rightarrow> False)"

definition ledger_unique :: "ledger_row list \<Rightarrow> bool" where
  \<comment> \<open>the table's \<open>UNIQUE\<close> constraint on \<open>number\<close>\<close>
  "ledger_unique rows = distinct (map number rows)"

definition empty_store :: store where
  "empty_store = \<lparr>cache = Map.empty, published = [], ledger = [], next_id = 1, worker_log = []\<rparr>"

definition no_faults :: faults where
  "no_faults = \<lparr>hSet_rejects = False, publish_rejects = False, query_rejects = False\<rparr>"

section \<open>Example runs\<close>

text \<open>
  A submission of index 5, its delivery to the worker, and a second submission of the
  same index; and a run with a second index still pending.
\<close>

definition example_first :: "response \<times> store" where
  "example_first = post_values (JNum 5) no_faults empty_store"

definition example_worker :: "error option \<times> store" where
  "example_worker = subscription [(js ''5'', False)] (snd example_first)"

definition example_second :: "response \<times> store" where
  "example_second = post_values (JNum 5) no_faults (snd example_worker)"

definition example_run :: store where
  "example_run =
     run [Request (JNum 5) no_faults, Delivery (js ''5'') False, Request (JStr (js ''6'')) no_faults]
       empty_store"

section \<open>Properties of \<open>fib\<close>\<close>

lemma fib_loop_fold:
  "fib_loop i index prev current = snd (fold spec_step [i..index] (prev, current))"
proof (induction i index prev current rule: fib_loop.induct)
  case (1 i index prev current)
  show ?case
  proof (cases "i \<le> index")
    case True
    then have "[i..index] = i # [i + 1..index]"
      by (simp add: upto_rec1)
    with True 1 show ?thesis
      by (simp add: fib_loop.simps [of i] spec_step_def)
  next
    case False
    then show ?thesis
      by (simp add: fib_loop.simps [of i])
  qed
qed

lemma fib_eq_fib_spec: "fib i = fib_spec i"
  by (simp add: fib_def fib_spec_def fib_loop_fold)

lemma spec_step_pair: "spec_step k (a, b) = (b, a + b)"
  by (simp add: spec_step_def)

lemma fold_spec_step_pair:
  "1 \<le> k \<Longrightarrow> fold spec_step [2..k] (1, 1) = (fib (k - 1), fib k)"
proof (induction k rule: int_ge_induct)
  case base
  show ?case by (simp add: fib_def)
next
  case (step k)
  have "[2..k + 1] = [2..k] @ [k + 1]"
    using step.hyps by (simp add: upto_rec2)
  then have "fold spec_step [2..k + 1] (1, 1) = (fib k, fib (k - 1) + fib k)"
    using step.IH by (simp add: spec_step_pair)
  moreover from this have "fib (k + 1) = fib (k - 1) + fib k"
    using step.hyps by (simp add: fib_eq_fib_spec [of "k + 1"] fib_spec_def)
  ultimately show ?case by simp
qed

lemma fib_rec: "2 \<le> k \<Longrightarrow> fib k = fib (k - 2) + fib (k - 1)"
  using fold_spec_step_pair [of "k - 1"] fold_spec_step_pair [of k]
  by (simp add: spec_step_pair upto_rec2 [of 2 k])

lemma fib_pos: "1 \<le> fib k"
proof (induction "nat k" arbitrary: k rule: less_induct)
  case less
  show ?case
  proof (cases "k < 2")
    case True
    then show ?thesis by (simp add: fib_def)
  next
    case False
    then have "1 \<le> fib (k - 2)" "1 \<le> fib (k - 1)"
      by (auto intro!: less.hyps)
    with False show ?thesis by (simp add: fib_rec)
  qed
qed

lemma fib_mono_step: "fib k \<le> fib (k + 1)"
proof (cases "k < 1")
  case True
  then show ?thesis by (simp add: fib_def)
next
  case False
  then have "fib (k + 1) = fib (k - 1) + fib k"
    using fib_rec [of "k + 1"] by simp
  with fib_pos [of "k - 1"] show ?thesis by simp
qed

lemma fib_mono: "i \<le> j \<Longrightarrow> fib i \<le> fib j"
proof (induction j rule: int_ge_induct)
  case base
  show ?case by simp
next
  case (step j)
  with fib_mono_step [of j] show ?case by simp
qed

lemma fib_40: "fib 40 = 165580141"
  by code_simp

text \<open>
  Up to index 40 every value of \<open>fib\<close>, hence every sum the loop forms, is a positive
  integer below \<open>2 ^ 53\<close>: the double additions of the source are exact there.
\<close>

lemma fib_exact_range: "i \<le> 40 \<Longrightarrow> 1 \<le> fib i \<and> fib i \<le> 165580141 \<and> fib i < 2 ^ 53"
  using fib_mono [of i 40] fib_pos [of i] by (simp add: fib_40)

text \<open>
  Claim C1. For every integer \<open>i\<close> from 0 to 40, the worker's \<open>fib\<close> returns the
  value of the iterative recurrence of the specification (accumulators seeded at 1, 1,
  one step \<open>next = a + b\<close> for each step from 2 to \<open>i\<close> inclusive, 1 unmodified below
  2); in particular \<open>fib 0 = 1\<close>, \<open>fib 1 = 1\<close>, \<open>fib 2 = 2\<close>, \<open>fib 5 = 8\<close>,
  \<open>fib 10 = 89\<close> and \<open>fib 40 = 165580141\<close>.
\<close>

theorem fib_matches_recurrence:
  "(\<forall>i. 0 \<le> i \<and> i \<le> 40 \<longrightarrow> fib i = fib_spec i) \<and>
   fib 0 = 1 \<and> fib 1 = 1 \<and> fib 2 = 2 \<and> fib 5 = 8 \<and> fib 10 = 89 \<and> fib 40 = 165580141"
proof -
  have "fib 0 = 1" "fib 1 = 1" "fib 2 = 2" "fib 5 = 8" "fib 10 = 89"
    by code_simp+
  moreover have "\<forall>i. 0 \<le> i \<and> i \<le> 40 \<longrightarrow> fib i = fib_spec i"
    by (simp add: fib_eq_fib_spec)
  ultimately show ?thesis
    using fib_40 by blast
qed

theorem fib_matches_recurrence_witness:
  "(0::int) \<le> 7 \<and> (7::int) \<le> 40 \<and> fib 7 = fib_spec 7 \<and> fib_spec 7 = 21"
proof -
  have "fib_spec 7 = 21"
    by code_simp
  moreover have "fib 7 = fib_spec 7"
    using fib_matches_recurrence by simp
  ultimately show ?thesis by simp
qed

section \<open>Parsed numbers\<close>

text \<open>
  The parsers on some inputs: leading white space and a sign are read, what follows the
  number is ignored, \<open>parseInt\<close> stops at the first non-digit, and the value is
  rounded to the nearest double (ties to even).
\<close>

lemma parse_examples:
  "parseInt (js '' -12px'') = Fin (- 12)"
  "parseInt (js ''1e3'') = Fin 1"
  "parseFloat (js ''1e3'') = Fin 1000"
  "parseFloat (js ''.5'') = Fin (1 / 2)"
  "parseFloat (js ''0.1'') = Fin (3602879701896397 / 2 ^ 55)"
  "parseInt (js ''9007199254740993'') = Fin 9007199254740992"
  "parseFloat (js ''-Infinity'') = NInf"
  "parseFloat (js ''e5'') = NaN"
  by code_simp+

text \<open>
  A JSON number from \<open>10 ^ 21\<close> on is printed in exponent form, so \<open>parseInt\<close>
  reads its leading digit only and the handler answers that it is not an integer.
\<close>

lemma number_toString_examples:
  "ToString (JNum 40) = js ''40''"
  "ToString (JNum (- 7)) = js ''-7''"
  "ToString (JNum (10 ^ 21)) = js ''1e+21''"
  "fst (post_values (JNum (10 ^ 21)) no_faults empty_store) =
     reject 400 ''Index must be an integer''"
  by code_simp+

text \<open>
  The numeric value of an input is the double \<open>parseFloat\<close> gives: a decimal closer
  to 3 than half a unit in the last place is the number 3.
\<close>

lemma parseFloat_nearest_double:
  "parseFloat (js ''3.0000000000000000000001'') = Fin 3"
  "is_integer (parseFloat (js ''3.0000000000000000000001''))"
  by code_simp+

lemma round_half_even_one: "round_half_even x 1 = x"
  by (simp add: round_half_even_def)

lemma round_half_even_ge: "0 < d \<Longrightarrow> n div d \<le> round_half_even n d"
  by (simp add: round_half_even_def Let_def)

lemma bitlen_one: "bitlen 1 = 1"
  by (simp add: bitlen_alt_def)

lemma ilog2_int: "0 < n \<Longrightarrow> ilog2 n 1 = bitlen n - 1"
proof -
  assume n: "0 < n"
  then have "1 \<le> bitlen n"
    using bitlen_eq_zero_iff [of n] bitlen_nonneg [of n] by linarith
  moreover have "2 ^ nat (bitlen n - 1) \<le> n"
    using bitlen_bounds [OF n] by simp
  ultimately show ?thesis
    by (simp add: ilog2_def bitlen_one)
qed

lemma to_double_exact:
  assumes "0 < n" "n < 2 ^ 53"
  shows "to_double neg n 1 = Fin ((if neg then - 1 else 1) * of_int n)"
proof -
  have b1: "1 \<le> bitlen n"
    using assms(1) bitlen_eq_zero_iff [of n] bitlen_nonneg [of n] by linarith
  have "bitlen n \<le> 53"
    using assms by (simp add: bitlen_le_iff_power)
  define k where "k = nat (53 - bitlen n)"
  have p: "max (ilog2 n 1 - 52) (- 1074) = - int k"
    using b1 \<open>bitlen n \<le> 53\<close> by (simp add: ilog2_int assms(1) k_def)
  show ?thesis
  proof (cases "k = 0")
    case True
    with p assms show ?thesis
      by (simp add: to_double_def round_half_even_one)
  next
    case False
    with p assms show ?thesis
      by (simp add: to_double_def round_half_even_one)
  qed
qed

lemma to_double_large:
  assumes "2 ^ 53 \<le> n"
  shows "to_double neg n 1 = (if neg then NInf else PInf) \<or>
         (\<exists>m. 2 ^ 53 \<le> m \<and> to_double neg n 1 = Fin ((if neg then - 1 else 1) * of_int m))"
proof -
  have n: "0 < n"
    using assms by (smt (verit) zero_less_power)
  have "\<not> bitlen n \<le> 53"
    using assms by (simp add: bitlen_le_iff_power)
  define k where "k = nat (bitlen n - 53)"
  have k: "0 < k" "bitlen n - 1 = 52 + int k"
    using \<open>\<not> bitlen n \<le> 53\<close> by (simp_all add: k_def)
  have p: "max (ilog2 n 1 - 52) (- 1074) = int k"
    using k by (simp add: ilog2_int n)
  define m where "m = round_half_even n (2 ^ k)"
  have "2 ^ (52 + k) \<le> n"
    using bitlen_bounds [OF n] k by (simp add: nat_add_distrib)
  then have "(2::int) ^ 52 * 2 ^ k div 2 ^ k \<le> n div 2 ^ k"
    by (intro zdiv_mono1) (simp_all add: power_add)
  then have "2 ^ 52 \<le> n div 2 ^ k"
    by simp
  then have m52: "2 ^ 52 \<le> m"
    using round_half_even_ge [of "2 ^ k" n] by (simp add: m_def)
  have "(2::int) ^ 1 \<le> 2 ^ k"
    using k(1) by (intro power_increasing) simp_all
  with m52 have "(2::int) ^ 52 * 2 ^ 1 \<le> m * 2 ^ k"
    by (intro mult_mono) simp_all
  then have big: "2 ^ 53 \<le> m * 2 ^ k"
    by simp
  have "to_double neg n 1 =
      (if 2 ^ 1024 \<le> m * 2 ^ k then (if neg then NInf else PInf)
       else Fin ((if neg then - 1 else 1) * of_int m * 2 ^ k))"
    using n p by (simp add: to_double_def m_def Let_def)
  with big show ?thesis
    by (auto intro!: exI [of _ "m * 2 ^ k"])
qed

lemma digits_value_foldl_nonneg:
  "0 \<le> a \<Longrightarrow> \<forall>c \<in> set ds. is_digit c \<Longrightarrow> 0 \<le> foldl (\<lambda>a c. 10 * a + (c - 48)) a ds"
  by (induction ds arbitrary: a) (simp_all add: is_digit_def)

lemma digits_value_nonneg: "\<forall>c \<in> set ds. is_digit c \<Longrightarrow> 0 \<le> digits_value ds"
  by (simp add: digits_value_def digits_value_foldl_nonneg)

lemma to_double_int_range:
  assumes "0 \<le> n" "to_double neg n 1 = x"
    "\<not> js_lt x (Fin 0)" "\<not> js_gt x (Fin 40)"
  shows "\<exists>k. 0 \<le> k \<and> k \<le> 40 \<and> x = Fin (of_int k)"
proof (cases "n = 0")
  case True
  with assms(2) show ?thesis
    by (auto simp: to_double_def intro!: exI [of _ 0])
next
  case False
  with assms(1) have n: "0 < n" by simp
  show ?thesis
  proof (cases "n < 2 ^ 53")
    case True
    have "x = Fin ((if neg then - 1 else 1) * of_int n)"
      using to_double_exact [OF n True, of neg] assms(2) by simp
    with assms(3,4) n show ?thesis
      by (cases neg) (auto simp: js_gt_def intro!: exI [of _ n])
  next
    case False
    then have "2 ^ 53 \<le> n" by simp
    from to_double_large [OF this, of neg] assms(2)
    have "x = (if neg then NInf else PInf) \<or>
        (\<exists>m. 2 ^ 53 \<le> m \<and> x = Fin ((if neg then - 1 else 1) * of_int m))"
      by simp
    with assms(3,4) show ?thesis
      by (cases neg) (auto simp: js_gt_def)
  qed
qed

lemma parseInt_range:
  assumes "\<not> isNaN (parseInt s)" "\<not> js_lt (parseInt s) (Fin 0)" "\<not> js_gt (parseInt s) (Fin 40)"
  shows "\<exists>k. 0 \<le> k \<and> k \<le> 40 \<and> parseInt s = Fin (of_int k)"
proof -
  obtain neg t where st: "strip_sign (dropWhile is_ws s) = (neg, t)"
    by (cases "strip_sign (dropWhile is_ws s)")
  define z where "z = takeWhile is_digit t"
  have "\<forall>c \<in> set z. is_digit c"
    unfolding z_def by (auto dest: set_takeWhileD)
  then have nonneg: "0 \<le> digits_value z"
    by (rule digits_value_nonneg)
  from assms(1) have "z \<noteq> []"
    by (auto simp: parseInt_def st z_def isNaN_def Let_def)
  then have "to_double neg (digits_value z) 1 = parseInt s"
    by (simp add: parseInt_def st z_def Let_def)
  from to_double_int_range [OF nonneg this assms(2,3)] show ?thesis .
qed


lemma index_in_range_iff:
  "index_in_range x \<longleftrightarrow> (\<exists>k. 0 \<le> k \<and> k \<le> 40 \<and> x = Fin (of_int k))"
proof
  assume "index_in_range x"
  then obtain q where q: "x = Fin q" "0 \<le> q" "q \<le> 40" "q = of_int \<lfloor>q\<rfloor>"
    by (auto simp: index_in_range_def split: jsnum.splits)
  define k where "k = \<lfloor>q\<rfloor>"
  have "q = of_int k"
    using q(4) by (simp add: k_def)
  with q(2,3) have "0 \<le> k" "k \<le> 40"
    by simp_all
  with \<open>q = of_int k\<close> q(1) show "\<exists>k. 0 \<le> k \<and> k \<le> 40 \<and> x = Fin (of_int k)"
    by blast
next
  assume "\<exists>k. 0 \<le> k \<and> k \<le> 40 \<and> x = Fin (of_int k)"
  then show "index_in_range x"
    by (auto simp: index_in_range_def)
qed

lemma parseInt_in_range:
  "\<not> isNaN (parseInt s) \<and> \<not> js_lt (parseInt s) (Fin 0) \<and> \<not> js_gt (parseInt s) (Fin 40)
     \<longleftrightarrow> index_in_range (parseInt s)"
proof
  assume "\<not> isNaN (parseInt s) \<and> \<not> js_lt (parseInt s) (Fin 0) \<and> \<not> js_gt (parseInt s) (Fin 40)"
  then show "index_in_range (parseInt s)"
    using parseInt_range [of s] by (simp add: index_in_range_iff)
next
  assume "index_in_range (parseInt s)"
  then show "\<not> isNaN (parseInt s) \<and> \<not> js_lt (parseInt s) (Fin 0) \<and> \<not> js_gt (parseInt s) (Fin 40)"
    by (auto simp: index_in_range_iff isNaN_def js_gt_def)
qed

lemma in_range_toString:
  "index_in_range x \<Longrightarrow> number_toString x = int_toString (int_of_num x) \<and>
     0 \<le> int_of_num x \<and> int_of_num x \<le> 40 \<and> x = Fin (of_int (int_of_num x))"
proof -
  assume "index_in_range x"
  then obtain k where k: "0 \<le> k" "k \<le> 40" "x = Fin (of_int k)"
    by (auto simp: index_in_range_iff)
  then have "\<bar>k\<bar> < 2 ^ 53"
    by simp
  with k show ?thesis
    by (simp add: number_toString_def int_of_num_def)
qed

lemma missing_parse_NaN:
  "index = JUndefined \<or> index = JNull \<or> index = JStr [] \<Longrightarrow> parseInt (ToString index) = NaN"
proof -
  have "parseInt (js ''undefined'') = NaN" "parseInt (js ''null'') = NaN" "parseInt [] = NaN"
    by code_simp+
  then show "index = JUndefined \<or> index = JNull \<or> index = JStr [] \<Longrightarrow> parseInt (ToString index) = NaN"
    by (auto simp: ToString_def)
qed

lemma first_failure_cases:
  "first_failure index =
     (if index = JUndefined \<or> index = JNull \<or> index = JStr [] then Some MissingInput
      else if isNaN (parseInt (ToString index)) then Some Malformed
      else if js_lt (parseInt (ToString index)) (Fin 0) then Some BelowRange
      else if js_gt (parseInt (ToString index)) (Fin 40) then Some AboveRange
      else if js_strict_neq (parseInt (ToString index)) (parseFloat (ToString index))
        then Some NonInteger
      else None)"
  by (simp add: first_failure_def handler_checks_def)

lemma post_values_rejected:
  "first_failure index = Some r \<Longrightarrow> post_values index f s = (rejection_response r, s)"
  by (auto simp: first_failure_cases post_values_def rejection_response_def Let_def
      split: if_splits)

lemma post_values_passed:
  assumes "first_failure index = None"
  defines "n \<equiv> int_of_num (parseInt (ToString index))"
  shows "post_values index f s =
     (if hSet_rejects f then (internal_error, s)
      else if publish_rejects f then
        (internal_error, s\<lparr>cache := (cache s)(int_toString n \<mapsto> js ''Calculating...'')\<rparr>)
      else if query_rejects f then
        (internal_error, s\<lparr>cache := (cache s)(int_toString n \<mapsto> js ''Calculating...''),
                            published := published s @ [int_toString n]\<rparr>)
      else
        (accepted_response index,
         s\<lparr>cache := (cache s)(int_toString n \<mapsto> js ''Calculating...''),
           published := published s @ [int_toString n],
           ledger := (if n \<in> set (map number (ledger s)) then ledger s
                      else ledger s @ [\<lparr>row_id = next_id s, number = n\<rparr>]),
           next_id := next_id s + 1\<rparr>))"
    and "0 \<le> n \<and> n \<le> 40 \<and> parseInt (ToString index) = Fin (of_int n)"
proof -
  from assms(1) have pass:
    "\<not> (index = JUndefined \<or> index = JNull \<or> index = JStr [])"
    "\<not> isNaN (parseInt (ToString index))"
    "\<not> js_lt (parseInt (ToString index)) (Fin 0)"
    "\<not> js_gt (parseInt (ToString index)) (Fin 40)"
    "\<not> js_strict_neq (parseInt (ToString index)) (parseFloat (ToString index))"
    by (simp_all add: first_failure_cases split: if_splits)
  then have "index_in_range (parseInt (ToString index))"
    using parseInt_in_range [of "ToString index"] by simp
  from in_range_toString [OF this]
  have key: "number_toString (parseInt (ToString index)) = int_toString n"
    and rng: "0 \<le> n \<and> n \<le> 40 \<and> parseInt (ToString index) = Fin (of_int n)"
    by (simp_all add: n_def)
  show "0 \<le> n \<and> n \<le> 40 \<and> parseInt (ToString index) = Fin (of_int n)"
    by (rule rng)
  show "post_values index f s =
     (if hSet_rejects f then (internal_error, s)
      else if publish_rejects f then
        (internal_error, s\<lparr>cache := (cache s)(int_toString n \<mapsto> js ''Calculating...'')\<rparr>)
      else if query_rejects f then
        (internal_error, s\<lparr>cache := (cache s)(int_toString n \<mapsto> js ''Calculating...''),
                            published := published s @ [int_toString n]\<rparr>)
      else
        (accepted_response index,
         s\<lparr>cache := (cache s)(int_toString n \<mapsto> js ''Calculating...''),
           published := published s @ [int_toString n],
           ledger := (if n \<in> set (map number (ledger s)) then ledger s
                      else ledger s @ [\<lparr>row_id = next_id s, number = n\<rparr>]),
           next_id := next_id s + 1\<rparr>))"
    using pass
    by (simp add: post_values_def Let_def key n_def [symmetric] accepted_response_def
        hSet_def publish_def insert_value_def)
qed

section \<open>The gateway's validation and responses\<close>

lemma reject_status: "status (reject code text) = code"
  by (simp add: reject_def)

lemma rejection_status:
  "status (rejection_response r) = (if r = AboveRange then 422 else 400)"
  by (cases r) (simp_all add: rejection_response_def reject_status)

lemma status_post_values:
  "status (fst (post_values index f s)) =
     (case first_failure index of
        Some AboveRange \<Rightarrow> 422
      | Some r \<Rightarrow> 400
      | None \<Rightarrow> if hSet_rejects f \<or> publish_rejects f \<or> query_rejects f then 500 else 201)"
proof (cases "first_failure index")
  case None
  from post_values_passed(1) [OF None, of f s] show ?thesis
    by (simp add: None internal_error_def reject_status accepted_response_def)
next
  case (Some r)
  then show ?thesis
    by (cases r) (simp_all add: post_values_rejected rejection_status)
qed

lemma status_201_iff:
  "status (fst (post_values index f s)) = 201 \<longleftrightarrow>
     first_failure index = None \<and> \<not> hSet_rejects f \<and> \<not> publish_rejects f \<and> \<not> query_rejects f"
  by (simp add: status_post_values split: option.splits rejection.splits)

lemma status_rejected_iff:
  "status (fst (post_values index f s)) \<in> {400, 422} \<longleftrightarrow> first_failure index \<noteq> None"
  by (simp add: status_post_values split: option.splits rejection.splits)


subsection \<open>Plain numerals and the parsers\<close>

text \<open>
  On a plain decimal numeral \<open>parseInt\<close> gives the double of the integer digits and
  \<open>parseFloat\<close> the double nearest to the exact value; where no integer can be read,
  \<open>parseInt\<close> gives \<open>NaN\<close>.
\<close>

lemma digit_not_ws: "is_digit c \<Longrightarrow> \<not> is_ws c"
  by (auto simp: is_digit_def is_ws_def)

lemma numeral_parts:
  assumes "numeral s = Some (neg, ip, fp)"
  obtains t where "strip_sign s = (neg, t)" "ip = takeWhile is_digit t" "ip \<noteq> []"
    "dropWhile is_digit t = (if fp = [] then [] else of_char CHR ''.'' # fp)"
    "\<forall>c \<in> set fp. is_digit c"
proof -
  obtain neg' t where st: "strip_sign s = (neg', t)"
    by (cases "strip_sign s")
  from assms show ?thesis
    by (intro that [of t])
      (auto simp: numeral_def st Let_def list_all_iff split: if_splits list.splits)
qed

lemma strip_sign_no_ws:
  assumes "strip_sign s = (neg, t)" "takeWhile is_digit t \<noteq> []"
  shows "dropWhile is_ws s = s"
proof -
  from assms(2) obtain d t' where t: "t = d # t'" "is_digit d"
    by (cases t) (auto split: if_splits)
  then have "\<not> is_ws d"
    by (simp add: digit_not_ws)
  moreover have "\<not> is_ws (of_char CHR ''-'')" "\<not> is_ws (of_char CHR ''+'')"
    by (simp_all add: is_ws_def)
  ultimately show ?thesis
    using assms(1) t(1) by (cases s) (auto simp: strip_sign_def split: if_splits)
qed

lemma parseInt_numeral:
  assumes "numeral s = Some (neg, ip, fp)"
  shows "parseInt s = to_double neg (digits_value ip) 1"
proof -
  from assms obtain t where t: "strip_sign s = (neg, t)" "ip = takeWhile is_digit t" "ip \<noteq> []"
    by (rule numeral_parts)
  then have "dropWhile is_ws s = s"
    using strip_sign_no_ws [of s neg t] by simp
  with t show ?thesis
    by (simp add: parseInt_def Let_def)
qed

lemma parseFloat_numeral:
  assumes "numeral s = Some (neg, ip, fp)"
  shows "parseFloat s = double_value (neg, ip, fp)"
proof -
  from assms obtain t where t: "strip_sign s = (neg, t)" "ip = takeWhile is_digit t" "ip \<noteq> []"
    and r: "dropWhile is_digit t = (if fp = [] then [] else of_char CHR ''.'' # fp)"
    and fp: "\<forall>c \<in> set fp. is_digit c"
    by (rule numeral_parts)
  have ws: "dropWhile is_ws s = s"
    using strip_sign_no_ws [of s neg t] t by simp
  from t(2,3) obtain d t' where d: "t = d # t'" "is_digit d"
    by (cases t) (auto split: if_splits)
  then have inf: "take 8 t \<noteq> js ''Infinity''"
    by (auto simp: js_def is_digit_def)
  have st: "strip_sign s = (neg, t)"
    by (rule t(1))
  have ne: "takeWhile is_digit t \<noteq> []"
    using t(2,3) by simp
  show ?thesis
  proof (cases "fp = []")
    case True
    then have dw: "dropWhile is_digit t = []"
      using r by simp
    show ?thesis
      using inf ne
      by (simp add: parseFloat_def ws st dw Let_def decimal_value_def double_value_def True
          t(2) [symmetric])
  next
    case False
    then have dw: "dropWhile is_digit t = of_char CHR ''.'' # fp"
      using r by simp
    from fp have tw: "takeWhile is_digit fp = fp" and dw': "dropWhile is_digit fp = []"
      by (simp_all add: takeWhile_eq_all_conv)
    show ?thesis
      using inf ne False
      by (simp add: parseFloat_def ws st dw tw dw' Let_def decimal_value_def double_value_def
          exponent_part_def t(2) [symmetric])
  qed
qed

lemma no_integer_NaN: "no_integer s \<longleftrightarrow> parseInt s = NaN"
proof -
  obtain neg t where st: "strip_sign (dropWhile is_ws s) = (neg, t)"
    by (cases "strip_sign (dropWhile is_ws s)")
  have "to_double neg n 1 \<noteq> NaN" for n
    by (simp add: to_double_def Let_def)
  then show ?thesis
    by (cases t) (auto simp: no_integer_def parseInt_def st Let_def)
qed

lemma missing_no_numeral: "missing index \<Longrightarrow> numeral (ToString index) = None"
proof -
  have "numeral (js ''undefined'') = None" "numeral (js ''null'') = None" "numeral [] = None"
    by code_simp+
  then show "missing index \<Longrightarrow> numeral (ToString index) = None"
    by (auto simp: missing_def ToString_def)
qed

lemma to_double_pos:
  assumes "0 < n"
  shows "js_lt (Fin 0) (to_double False n 1) \<and> js_lt (to_double True n 1) (Fin 0)"
proof (cases "n < 2 ^ 53")
  case True
  from to_double_exact [OF assms True, of True] to_double_exact [OF assms True, of False] assms
  show ?thesis by simp
next
  case False
  then have big: "2 ^ 53 \<le> n" by simp
  from to_double_large [OF big, of True] to_double_large [OF big, of False]
  show ?thesis by auto
qed

lemma to_double_above:
  assumes "40 < n"
  shows "js_gt (to_double False n 1) (Fin 40)"
proof (cases "n < 2 ^ 53")
  case True
  from assms have "0 < n" by simp
  from to_double_exact [OF this True, of False] assms show ?thesis
    by (simp add: js_gt_def)
next
  case False
  then have big: "2 ^ 53 \<le> n" by simp
  from to_double_large [OF big, of False] show ?thesis
    by (auto simp: js_gt_def)
qed

lemma to_double_small:
  assumes "0 \<le> n" "n \<le> 40"
  shows "to_double neg n 1 = Fin ((if neg then - 1 else 1) * of_int n)"
proof (cases "n = 0")
  case True
  then show ?thesis by (simp add: to_double_def)
next
  case False
  with assms have "0 < n" "n < 2 ^ 53" by simp_all
  then show ?thesis by (rule to_double_exact)
qed

lemma numeral_status:
  assumes nm: "numeral (ToString index) = Some x"
  shows "int_part x < 0 \<Longrightarrow> first_failure index = Some BelowRange"
    and "40 < int_part x \<Longrightarrow> first_failure index = Some AboveRange"
    and "0 \<le> int_part x \<Longrightarrow> int_part x \<le> 40 \<Longrightarrow> \<not> is_integer (double_value x) \<Longrightarrow>
           first_failure index = Some NonInteger"
    and "0 \<le> int_part x \<Longrightarrow> int_part x \<le> 40 \<Longrightarrow> snd (snd x) = [] \<Longrightarrow>
           first_failure index = None \<and> parseInt (ToString index) = Fin (of_int (int_part x))"
proof -
  obtain neg ip fp where x: "x = (neg, ip, fp)"
    by (cases x)
  define n where "n = digits_value ip"
  from nm x obtain t where "ip = takeWhile is_digit t"
    by (auto elim: numeral_parts)
  then have "\<forall>c \<in> set ip. is_digit c"
    by (auto dest: set_takeWhileD)
  then have n0: "0 \<le> n"
    unfolding n_def by (rule digits_value_nonneg)
  have pi: "parseInt (ToString index) = to_double neg n 1"
    using parseInt_numeral [of "ToString index" neg ip fp] nm x by (simp add: n_def)
  have pf: "parseFloat (ToString index) = double_value x"
    using parseFloat_numeral [of "ToString index" neg ip fp] nm x by simp
  have nmiss: "\<not> (index = JUndefined \<or> index = JNull \<or> index = JStr [])"
    using missing_no_numeral [of index] nm by (auto simp: missing_def)
  have ip: "int_part x = (if neg then - n else n)"
    by (simp add: int_part_def x n_def)
  have nn: "to_double neg n 1 \<noteq> NaN"
    by (simp add: to_double_def Let_def)
  {
    assume "int_part x < 0"
    with ip n0 have "neg" "0 < n"
      by (auto split: if_splits)
    with to_double_pos [of n] have "js_lt (parseInt (ToString index)) (Fin 0)"
      by (simp add: pi)
    with nmiss nn show "first_failure index = Some BelowRange"
      by (simp add: first_failure_cases pi isNaN_def)
  }
  {
    assume "40 < int_part x"
    with ip n0 have "\<not> neg" "40 < n"
      by (auto split: if_splits)
    with to_double_above [of n] to_double_pos [of n]
    have "js_gt (parseInt (ToString index)) (Fin 40)" "js_lt (Fin 0) (parseInt (ToString index))"
      by (simp_all add: pi)
    moreover from this(2) have "\<not> js_lt (parseInt (ToString index)) (Fin 0)"
      by (cases "parseInt (ToString index)") auto
    ultimately show "first_failure index = Some AboveRange"
      using nmiss nn by (simp add: first_failure_cases pi isNaN_def)
  }
  {
    assume r: "0 \<le> int_part x" "int_part x \<le> 40"
    with ip n0 have small: "0 \<le> n" "n \<le> 40" and sgn: "neg \<longrightarrow> n = 0"
      by (auto split: if_splits)
    have val: "parseInt (ToString index) = Fin (of_int (int_part x))"
      using to_double_small [OF small, of neg] sgn by (auto simp: pi ip)
    then have range: "index_in_range (parseInt (ToString index))"
      using r by (auto simp: index_in_range_iff)
    then have ok: "\<not> isNaN (parseInt (ToString index))"
      "\<not> js_lt (parseInt (ToString index)) (Fin 0)" "\<not> js_gt (parseInt (ToString index)) (Fin 40)"
      using parseInt_in_range [of "ToString index"] by simp_all
    {
      assume "\<not> is_integer (double_value x)"
      moreover have "is_integer (Fin (of_int (int_part x)))"
        by (simp add: is_integer_def)
      ultimately have "parseFloat (ToString index) \<noteq> parseInt (ToString index)"
        unfolding pf val by auto
      then show "first_failure index = Some NonInteger"
        using nmiss ok by (auto simp: first_failure_cases js_strict_neq_def)
    }
    {
      assume "snd (snd x) = []"
      then have "double_value x = to_double neg n 1"
        by (simp add: x double_value_def n_def)
      then have "parseFloat (ToString index) = parseInt (ToString index)"
        by (simp add: pf pi)
      then show "first_failure index = None \<and> parseInt (ToString index) = Fin (of_int (int_part x))"
        using nmiss ok val by (simp add: first_failure_cases js_strict_neq_def isNaN_def)
    }
  }
qed

text \<open>
  Claim C2 as stated gives 422 for input out of range on either side. The handler
  answers an index below 0 with 400: at \<open>index = -1\<close> the parsed value is below 0 and
  the status is 400, not 422.
\<close>

theorem post_values_negative_is_400:
  "js_lt (parseInt (ToString (JNum (- 1)))) (Fin 0) \<and>
   status (fst (post_values (JNum (- 1)) no_faults empty_store)) = 400 \<and>
   status (fst (post_values (JNum (- 1)) no_faults empty_store)) \<noteq> 422"
  by code_simp

text \<open>
  Claim C2, amended. For every request to \<open>POST /values\<close> whose index is missing,
  holds no integer to read, or is a plain decimal numeral, the status is: 400 for a
  missing index, for input from which no base-10 integer can be read, for a parsed
  value below 0, and for non-integer input such as \<open>"3.5"\<close> whose parsed value lies
  in 0..40 and whose value as a double is not an integer; 422 for a parsed value above
  40; and for a well-formed base-10 integer from 0 to 40, 500 when a store operation
  fails and 201 otherwise, with a body holding \<open>working: true\<close> and the accepted
  index. Nothing is said of a digit prefix followed by other characters, nor of a
  fraction that is lost in rounding to a double.
\<close>

theorem post_values_status_by_input:
  "(missing index \<longrightarrow> status (fst (post_values index f s)) = 400) \<and>
   (no_integer (ToString index) \<longrightarrow> status (fst (post_values index f s)) = 400) \<and>
   (\<forall>x. numeral (ToString index) = Some x \<longrightarrow>
      (int_part x < 0 \<longrightarrow> status (fst (post_values index f s)) = 400) \<and>
      (40 < int_part x \<longrightarrow> status (fst (post_values index f s)) = 422) \<and>
      (0 \<le> int_part x \<and> int_part x \<le> 40 \<and> \<not> is_integer (double_value x) \<longrightarrow>
         status (fst (post_values index f s)) = 400) \<and>
      (0 \<le> int_part x \<and> int_part x \<le> 40 \<and> snd (snd x) = [] \<longrightarrow>
         status (fst (post_values index f s)) =
           (if hSet_rejects f \<or> publish_rejects f \<or> query_rejects f then 500 else 201) \<and>
         (status (fst (post_values index f s)) = 201 \<longrightarrow>
            body (fst (post_values index f s)) =
              Accepted True (Fin (of_int (int_part x))) (js ''Calculation started''))))"
proof (intro conjI allI impI)
  assume "missing index"
  then have "first_failure index = Some MissingInput"
    by (simp add: first_failure_cases missing_def)
  then show "status (fst (post_values index f s)) = 400"
    by (simp add: status_post_values)
next
  assume ni: "no_integer (ToString index)"
  then have "first_failure index = Some MissingInput \<or> first_failure index = Some Malformed"
    by (simp add: first_failure_cases no_integer_NaN isNaN_def)
  then show "status (fst (post_values index f s)) = 400"
    by (auto simp: status_post_values)
next
  fix x
  assume nm: "numeral (ToString index) = Some x"
  {
    assume "int_part x < 0"
    from numeral_status(1) [OF nm this] show "status (fst (post_values index f s)) = 400"
      by (simp add: status_post_values)
  }
  {
    assume "40 < int_part x"
    from numeral_status(2) [OF nm this] show "status (fst (post_values index f s)) = 422"
      by (simp add: status_post_values)
  }
  {
    assume "0 \<le> int_part x \<and> int_part x \<le> 40 \<and> \<not> is_integer (double_value x)"
    then have "first_failure index = Some NonInteger"
      using numeral_status(3) [OF nm] by blast
    then show "status (fst (post_values index f s)) = 400"
      by (simp add: status_post_values)
  }
  {
    assume "0 \<le> int_part x \<and> int_part x \<le> 40 \<and> snd (snd x) = []"
    then have pass: "first_failure index = None"
      and val: "parseInt (ToString index) = Fin (of_int (int_part x))"
      using numeral_status(4) [OF nm] by blast+
    from pass show st: "status (fst (post_values index f s)) =
        (if hSet_rejects f \<or> publish_rejects f \<or> query_rejects f then 500 else 201)"
      by (simp add: status_post_values)
    {
      assume "status (fst (post_values index f s)) = 201"
      with st have ok: "\<not> hSet_rejects f" "\<not> publish_rejects f" "\<not> query_rejects f"
        by (auto split: if_splits)
      from post_values_passed(1) [OF pass, of f s] ok
      show "body (fst (post_values index f s)) =
          Accepted True (Fin (of_int (int_part x))) (js ''Calculation started'')"
        by (simp add: accepted_response_def val)
    }
  }
qed

theorem post_values_status_by_input_witness:
  "missing JNull \<and> status (fst (post_values JNull no_faults empty_store)) = 400 \<and>
   no_integer (js ''abc'') \<and> status (fst (post_values (JStr (js ''abc'')) no_faults empty_store)) = 400 \<and>
   numeral (ToString (JNum (- 1))) = Some (True, js ''1'', []) \<and>
   status (fst (post_values (JNum (- 1)) no_faults empty_store)) = 400 \<and>
   numeral (ToString (JNum 41)) = Some (False, js ''41'', []) \<and>
   status (fst (post_values (JNum 41) no_faults empty_store)) = 422 \<and>
   numeral (js ''3.5'') = Some (False, js ''3'', js ''5'') \<and>
   \<not> is_integer (double_value (False, js ''3'', js ''5'')) \<and>
   status (fst (post_values (JStr (js ''3.5'')) no_faults empty_store)) = 400 \<and>
   numeral (ToString (JNum 5)) = Some (False, js ''5'', []) \<and>
   status (fst (post_values (JNum 5) no_faults empty_store)) = 201 \<and>
   body (fst (post_values (JNum 5) no_faults empty_store)) =
     Accepted True (Fin 5) (js ''Calculation started'') \<and>
   status (fst (post_values (JNum 5) (no_faults\<lparr>query_rejects := True\<rparr>) empty_store)) = 500"
proof -
  have a: "missing JNull"
    by (simp add: missing_def)
  have b: "no_integer (ToString (JStr (js ''abc'')))"
    by code_simp
  have c: "numeral (ToString (JNum (- 1))) = Some (True, js ''1'', [])"
    "int_part (True, js ''1'', []) = - 1"
    by code_simp+
  have d: "numeral (ToString (JNum 41)) = Some (False, js ''41'', [])"
    "int_part (False, js ''41'', []) = 41"
    by code_simp+
  have e: "numeral (ToString (JStr (js ''3.5''))) = Some (False, js ''3'', js ''5'')"
    "int_part (False, js ''3'', js ''5'') = 3"
    "\<not> is_integer (double_value (False, js ''3'', js ''5''))"
    by code_simp+
  have g: "numeral (ToString (JNum 5)) = Some (False, js ''5'', [])"
    "int_part (False, js ''5'', []) = 5"
    by code_simp+
  have h: "query_rejects (no_faults\<lparr>query_rejects := True\<rparr>)" "\<not> hSet_rejects no_faults"
    "\<not> publish_rejects no_faults" "\<not> query_rejects no_faults"
    by (simp_all add: no_faults_def)
  have 1: "status (fst (post_values JNull no_faults empty_store)) = 400"
    using post_values_status_by_input [of JNull no_faults empty_store] a by blast
  have 2: "status (fst (post_values (JStr (js ''abc'')) no_faults empty_store)) = 400"
    using post_values_status_by_input [of "JStr (js ''abc'')" no_faults empty_store] b by blast
  have 3: "status (fst (post_values (JNum (- 1)) no_faults empty_store)) = 400"
    using post_values_status_by_input [of "JNum (- 1)" no_faults empty_store] c by simp
  have 4: "status (fst (post_values (JNum 41) no_faults empty_store)) = 422"
    using post_values_status_by_input [of "JNum 41" no_faults empty_store] d by simp
  have 5: "status (fst (post_values (JStr (js ''3.5'')) no_faults empty_store)) = 400"
    using post_values_status_by_input [of "JStr (js ''3.5'')" no_faults empty_store] e by simp
  have 6: "status (fst (post_values (JNum 5) no_faults empty_store)) = 201"
    "body (fst (post_values (JNum 5) no_faults empty_store)) =
       Accepted True (Fin 5) (js ''Calculation started'')"
    using post_values_status_by_input [of "JNum 5" no_faults empty_store] g h by simp_all
  have 7: "status (fst (post_values (JNum 5) (no_faults\<lparr>query_rejects := True\<rparr>) empty_store)) = 500"
    using post_values_status_by_input [of "JNum 5" "no_faults\<lparr>query_rejects := True\<rparr>" empty_store]
      g h(1) by simp
  from b e(1) have b': "no_integer (js ''abc'')"
    and e': "numeral (js ''3.5'') = Some (False, js ''3'', js ''5'')"
    by (simp_all add: ToString_def)
  show ?thesis
    by (intro conjI a b' c(1) d(1) e' e(3) g(1) 1 2 3 4 5 6 7)
qed

text \<open>
  The handler tries its own five tests in order, and the first that fires gives the
  response, with the stores untouched.
\<close>

lemma handler_cascade:
  "(\<forall>r. first_failure index = Some r \<longrightarrow> post_values index f s = (rejection_response r, s)) \<and>
   (first_failure index = None \<longrightarrow> status (fst (post_values index f s)) \<in> {201, 500})"
proof (cases "first_failure index")
  case None
  from post_values_passed(1) [OF None, of f s] show ?thesis
    by (simp add: None internal_error_def reject_status accepted_response_def)
next
  case (Some r)
  then show ?thesis
    by (simp add: post_values_rejected)
qed

text \<open>
  Claim C3 says that the five checks are applied in order and that the first failing
  check alone decides the rejection. With check (2) as the claim words it, \<open>"5abc"\<close>
  is not parseable as a base-10 integer: the first failing check is (2), yet the
  handler rejects nothing and answers 201. At \<open>"41abc"\<close> the first failing check is
  again (2), and the handler answers with the rejection of check (4), status 422: its
  test for (2) reads the digit prefix and lets the input pass on to the later checks.
\<close>

theorem first_failing_check_not_decisive:
  "claim_checks (JStr (js ''5abc'')) =
     [(MissingInput, False), (Malformed, True), (BelowRange, False), (AboveRange, False),
      (NonInteger, False)] \<and>
   claim_first_failure (JStr (js ''5abc'')) = Some Malformed \<and>
   fst (post_values (JStr (js ''5abc'')) no_faults empty_store) =
     \<lparr>status = 201, body = Accepted True (Fin 5) (js ''Calculation started'')\<rparr> \<and>
   claim_first_failure (JStr (js ''41abc'')) = Some Malformed \<and>
   fst (post_values (JStr (js ''41abc'')) no_faults empty_store) = rejection_response AboveRange \<and>
   rejection_response AboveRange \<noteq> rejection_response Malformed"
  by code_simp

text \<open>
  Claim C4 says that no input that is not a well-formed base-10 integer, such as
  \<open>"5abc"\<close>, reaches the accepted path. \<open>parseInt\<close> and \<open>parseFloat\<close> both read the
  digit prefix and ignore the rest, so the handler accepts \<open>"5abc"\<close> as index 5:
  status 201, placeholder written under \<open>"5"\<close>, \<open>"5"\<close> published, 5 inserted into
  the ledger; only input without any digit prefix, such as \<open>"abc"\<close>, is rejected as
  not a valid number.
\<close>

theorem digit_prefix_accepted:
  "isNaN (parseInt (js ''abc'')) \<and> \<not> isNaN (parseInt (js ''5abc'')) \<and>
   fst (post_values (JStr (js ''5abc'')) no_faults empty_store) =
     \<lparr>status = 201, body = Accepted True (Fin 5) (js ''Calculation started'')\<rparr> \<and>
   cache (snd (post_values (JStr (js ''5abc'')) no_faults empty_store)) (js ''5'') =
     Some (js ''Calculating...'') \<and>
   published (snd (post_values (JStr (js ''5abc'')) no_faults empty_store)) = [js ''5''] \<and>
   map number (ledger (snd (post_values (JStr (js ''5abc'')) no_faults empty_store))) = [5]"
  by code_simp

text \<open>
  Claim C5 says that input whose truncated base-10 parse lies in 0..40 and whose exact,
  unrounded numeric value is not an integer is rejected as non-integer, not truncated
  and accepted. \<open>"3.0000000000000000000001"\<close> has the truncated parse 3 and the exact
  value \<open>3 + 1 / 10 ^ 22\<close>, which is not an integer; \<open>parseFloat\<close> rounds it to the
  double 3, the handler's test \<open>parsedIndex !== parseFloat(index)\<close> compares 3 with 3,
  and the request is accepted as index 3: status 201, placeholder written under
  \<open>"3"\<close>, \<open>"3"\<close> published, 3 inserted into the ledger. The same happens at
  \<open>"7.00000000000000001"\<close>.
\<close>

theorem near_integer_accepted:
  "numeral (js ''3.0000000000000000000001'') =
     Some (False, js ''3'', js ''0000000000000000000001'') \<and>
   int_part (False, js ''3'', js ''0000000000000000000001'') = 3 \<and>
   exact_value (False, js ''3'', js ''0000000000000000000001'') = 3 + 1 / 10 ^ 22 \<and>
   claim_first_failure (JStr (js ''3.0000000000000000000001'')) = Some NonInteger \<and>
   fst (post_values (JStr (js ''3.0000000000000000000001'')) no_faults empty_store) =
     \<lparr>status = 201, body = Accepted True (Fin 3) (js ''Calculation started'')\<rparr> \<and>
   cache (snd (post_values (JStr (js ''3.0000000000000000000001'')) no_faults empty_store))
     (js ''3'') = Some (js ''Calculating...'') \<and>
   published (snd (post_values (JStr (js ''3.0000000000000000000001'')) no_faults empty_store)) =
     [js ''3''] \<and>
   map number (ledger (snd (post_values (JStr (js ''3.0000000000000000000001'')) no_faults
     empty_store))) = [3] \<and>
   exact_value (False, js ''7'', js ''00000000000000001'') = 7 + 1 / 10 ^ 17 \<and>
   status (fst (post_values (JStr (js ''7.00000000000000001'')) no_faults empty_store)) = 201"
  by code_simp

text \<open>
  Claim C6. A submission whose parsed value is above 40 is rejected with status 422,
  one whose parsed value is below 0 with status 400: the two statuses differ, so a
  client can tell too large from too small.
\<close>

theorem above_and_below_distinct:
  assumes "js_gt (parseInt (ToString high)) (Fin 40)"
    and "js_lt (parseInt (ToString low)) (Fin 0)"
  shows "status (fst (post_values high f s)) = 422 \<and>
         status (fst (post_values low f' s')) = 400 \<and>
         status (fst (post_values high f s)) \<noteq> status (fst (post_values low f' s'))"
proof -
  from assms(1) have h: "parseInt (ToString high) \<noteq> NaN"
    "\<not> js_lt (parseInt (ToString high)) (Fin 0)"
    by (cases "parseInt (ToString high)"; simp add: js_gt_def)+
  from assms(2) have l: "parseInt (ToString low) \<noteq> NaN"
    by (cases "parseInt (ToString low)"; simp)
  from h(1) l have "\<not> (high = JUndefined \<or> high = JNull \<or> high = JStr [])"
    "\<not> (low = JUndefined \<or> low = JNull \<or> low = JStr [])"
    using missing_parse_NaN [of high] missing_parse_NaN [of low] by auto
  with assms h l have "first_failure high = Some AboveRange" "first_failure low = Some BelowRange"
    by (simp_all add: first_failure_cases isNaN_def)
  then show ?thesis
    by (simp add: post_values_rejected rejection_status)
qed

theorem above_and_below_distinct_witness:
  "js_gt (parseInt (ToString (JNum 41))) (Fin 40) \<and>
   js_lt (parseInt (ToString (JNum (- 1)))) (Fin 0) \<and>
   status (fst (post_values (JNum 41) no_faults empty_store)) = 422 \<and>
   status (fst (post_values (JNum (- 1)) no_faults empty_store)) = 400"
proof -
  have a: "js_gt (parseInt (ToString (JNum 41))) (Fin 40)"
    "js_lt (parseInt (ToString (JNum (- 1)))) (Fin 0)"
    by code_simp+
  from above_and_below_distinct [OF a, of no_faults empty_store no_faults empty_store] a
  show ?thesis by simp
qed

text \<open>
  Claim C7. A submission rejected by validation (a failing check; equivalently a
  response with status 400 or 422, for example at \<open>index = -1\<close>) leaves every store as
  it was: no Result Cache write, no publish on the Event Channel, no Ledger insert.
\<close>

theorem rejection_before_side_effects:
  "(first_failure index \<noteq> None \<longrightarrow> snd (post_values index f s) = s) \<and>
   (status (fst (post_values index f s)) \<in> {400, 422} \<longrightarrow>
      cache (snd (post_values index f s)) = cache s \<and>
      published (snd (post_values index f s)) = published s \<and>
      ledger (snd (post_values index f s)) = ledger s \<and>
      next_id (snd (post_values index f s)) = next_id s)"
proof -
  have "first_failure index \<noteq> None \<Longrightarrow> snd (post_values index f s) = s"
    by (auto simp: post_values_rejected)
  then show ?thesis
    using status_rejected_iff [of index f s] by auto
qed

theorem rejection_before_side_effects_witness:
  "first_failure (JNum (- 1)) = Some BelowRange \<and>
   status (fst (post_values (JNum (- 1)) no_faults empty_store)) = 400 \<and>
   snd (post_values (JNum (- 1)) no_faults empty_store) = empty_store \<and>
   published (snd (post_values (JNum (- 1)) no_faults empty_store)) = [] \<and>
   ledger (snd (post_values (JNum (- 1)) no_faults empty_store)) = []"
proof -
  have a: "first_failure (JNum (- 1)) = Some BelowRange"
    "status (fst (post_values (JNum (- 1)) no_faults empty_store)) = 400"
    by code_simp+
  from rejection_before_side_effects [of "JNum (- 1)" no_faults empty_store] a
  show ?thesis
    by (simp add: empty_store_def)
qed

section \<open>The worker\<close>

lemma handle_try_invalid:
  "\<not> index_in_range (parseInt m) \<Longrightarrow>
     handle_try rejects m s = (None, console (InvalidMessage m) s)"
  using parseInt_in_range [of m] by (auto simp: handle_try_def Let_def)

lemma handle_try_valid:
  assumes "index_in_range (parseInt m)"
  shows "handle_try rejects m s =
     (if rejects then (Some RedisError, console (Calculating (parseInt m)) s)
      else (None, console (Calculated (parseInt m) (fib (int_of_num (parseInt m))))
              ((console (Calculating (parseInt m)) s)
                 \<lparr>cache := (cache s)(int_toString (int_of_num (parseInt m)) \<mapsto>
                    int_toString (fib (int_of_num (parseInt m))))\<rparr>)))"
  using assms parseInt_in_range [of m] in_range_toString [OF assms]
  by (simp add: handle_try_def Let_def hSet_def console_def)

lemma on_message_cases:
  "on_message rejects m s =
     (if \<not> index_in_range (parseInt m) then (None, console (InvalidMessage m) s)
      else if rejects then
        (None, console (ProcessingError RedisError) (console (Calculating (parseInt m)) s))
      else (None, console (Calculated (parseInt m) (fib (int_of_num (parseInt m))))
              ((console (Calculating (parseInt m)) s)
                 \<lparr>cache := (cache s)(int_toString (int_of_num (parseInt m)) \<mapsto>
                    int_toString (fib (int_of_num (parseInt m))))\<rparr>)))"
  by (simp add: on_message_def handle_try_invalid handle_try_valid)

lemma on_message_no_error: "fst (on_message rejects m s) = None"
  by (simp add: on_message_cases)

lemma subscription_fold:
  "subscription ms s = (None, fold (\<lambda>(m, r) s. snd (on_message r m s)) ms s)"
proof (induction ms arbitrary: s)
  case Nil
  show ?case by simp
next
  case (Cons a ms)
  obtain m r where a: "a = (m, r)" by (cases a)
  obtain s' where s': "on_message r m s = (None, s')"
    using on_message_no_error [of r m s] by (cases "on_message r m s") auto
  show ?case
    by (simp add: a s' Cons.IH)
qed

lemma on_message_stores:
  "ledger (snd (on_message rejects m s)) = ledger s \<and>
   published (snd (on_message rejects m s)) = published s \<and>
   next_id (snd (on_message rejects m s)) = next_id s"
  by (simp add: on_message_cases console_def)

lemma subscription_ledger: "ledger (snd (subscription ms s)) = ledger s"
proof (induction ms arbitrary: s)
  case Nil
  show ?case by simp
next
  case (Cons a ms)
  obtain m r where a: "a = (m, r)" by (cases a)
  obtain s' where s': "on_message r m s = (None, s')"
    using on_message_no_error [of r m s] by (cases "on_message r m s") auto
  then have "ledger s' = ledger s"
    using on_message_stores [of r m s] by simp
  then show ?case
    by (simp add: a s' Cons.IH)
qed


section \<open>The ledger and the cache\<close>

lemma count_unique:
  "distinct (map number rows) \<Longrightarrow> n \<in> set (map number rows) \<Longrightarrow>
     length (filter (\<lambda>r. number r = n) rows) = 1"
proof (induction rows)
  case Nil
  then show ?case by simp
next
  case (Cons r rows)
  show ?case
  proof (cases "number r = n")
    case True
    with Cons.prems have "n \<notin> number ` set rows"
      by auto
    then have "filter (\<lambda>r. number r = n) rows = []"
      by (auto simp: filter_empty_conv)
    with True show ?thesis by simp
  next
    case False
    with Cons show ?thesis by auto
  qed
qed

lemma accepted_store:
  assumes "status (fst (post_values index f s)) = 201"
  defines "n \<equiv> int_of_num (parseInt (ToString index))"
  shows "cache (snd (post_values index f s)) = (cache s)(int_toString n \<mapsto> js ''Calculating...'')"
    and "published (snd (post_values index f s)) = published s @ [int_toString n]"
    and "ledger (snd (post_values index f s)) =
           (if n \<in> set (map number (ledger s)) then ledger s
            else ledger s @ [\<lparr>row_id = next_id s, number = n\<rparr>])"
proof -
  from assms(1) have pass: "first_failure index = None" and ok:
    "\<not> hSet_rejects f" "\<not> publish_rejects f" "\<not> query_rejects f"
    by (simp_all add: status_201_iff)
  note eq = post_values_passed(1) [OF pass, of f s, folded n_def]
  show "cache (snd (post_values index f s)) = (cache s)(int_toString n \<mapsto> js ''Calculating...'')"
    and "published (snd (post_values index f s)) = published s @ [int_toString n]"
    and "ledger (snd (post_values index f s)) =
           (if n \<in> set (map number (ledger s)) then ledger s
            else ledger s @ [\<lparr>row_id = next_id s, number = n\<rparr>])"
    using ok by (simp_all add: eq)
qed

lemma post_values_ledger_unique:
  "ledger_unique (ledger s) \<Longrightarrow> ledger_unique (ledger (snd (post_values index f s)))"
proof (cases "first_failure index")
  case None
  assume "ledger_unique (ledger s)"
  with post_values_passed(1) [OF None, of f s] show ?thesis
    by (auto simp: ledger_unique_def)
next
  case (Some r)
  assume "ledger_unique (ledger s)"
  with Some show ?thesis
    by (simp add: post_values_rejected)
qed

text \<open>
  Claim C8. Submitting the same valid index twice (both accepted, the worker
  processing any messages in between) leaves exactly one Ledger Entry for that number:
  the second insert meets the conflict and is ignored without an error, the ledger is
  as the first submission left it and its numbers stay unique. The Result Cache entry
  of the index is overwritten, last write wins: it holds the placeholder after each
  submission, whatever was there before; the cache is a map, so the key is not
  duplicated.
\<close>

theorem resubmission_idempotent:
  assumes "ledger_unique (ledger s)"
    and "post_values index f1 s = (r1, s1)" and "status r1 = 201"
    and "subscription ms s1 = (e, s1')"
    and "post_values index f2 s1' = (r2, s2)" and "status r2 = 201"
  shows "length (filter (\<lambda>r. number r = int_of_num (parseInt (ToString index))) (ledger s2)) = 1 \<and>
         ledger s2 = ledger s1 \<and>
         ledger_unique (ledger s2) \<and>
         cache s1 (int_toString (int_of_num (parseInt (ToString index)))) =
           Some (js ''Calculating...'') \<and>
         cache s2 = (cache s1')(int_toString (int_of_num (parseInt (ToString index))) \<mapsto>
           js ''Calculating...'')"
proof -
  define n where "n = int_of_num (parseInt (ToString index))"
  have first: "status (fst (post_values index f1 s)) = 201" "snd (post_values index f1 s) = s1"
    using assms(2,3) by simp_all
  have second: "status (fst (post_values index f2 s1')) = 201" "snd (post_values index f2 s1') = s2"
    using assms(5,6) by simp_all
  have u1: "ledger_unique (ledger s1)"
    using post_values_ledger_unique [OF assms(1), of index f1] first(2) by simp
  have in1: "n \<in> set (map number (ledger s1))"
    using accepted_store(3) [OF first(1)] first(2) by (auto simp: n_def)
  have l1': "ledger s1' = ledger s1"
    using subscription_ledger [of ms s1] assms(4) by simp
  have l2: "ledger s2 = ledger s1"
    using accepted_store(3) [OF second(1)] second(2) in1 l1' by (simp add: n_def)
  have "length (filter (\<lambda>r. number r = n) (ledger s1)) = 1"
    using u1 in1 by (simp add: ledger_unique_def count_unique)
  moreover have "cache s1 (int_toString n) = Some (js ''Calculating...'')"
    using accepted_store(1) [OF first(1)] first(2) by (simp add: n_def)
  moreover have "cache s2 = (cache s1')(int_toString n \<mapsto> js ''Calculating...'')"
    using accepted_store(1) [OF second(1)] second(2) by (simp add: n_def)
  ultimately show ?thesis
    using l2 u1 by (simp add: n_def)
qed

theorem resubmission_idempotent_witness:
  "ledger_unique (ledger empty_store) \<and>
   status (fst example_first) = 201 \<and> status (fst example_second) = 201 \<and>
   cache (snd example_first) (js ''5'') = Some (js ''Calculating...'') \<and>
   cache (snd example_worker) (js ''5'') = Some (js ''8'') \<and>
   cache (snd example_second) (js ''5'') = Some (js ''Calculating...'') \<and>
   length (filter (\<lambda>r. number r = 5) (ledger (snd example_second))) = 1 \<and>
   ledger (snd example_second) = ledger (snd example_first) \<and>
   map number (ledger (snd example_second)) = [5]"
proof -
  have u: "ledger_unique (ledger empty_store)"
    by (simp add: ledger_unique_def empty_store_def)
  have st: "status (fst example_first) = 201" "status (fst example_second) = 201"
    by code_simp+
  have n: "int_of_num (parseInt (ToString (JNum 5))) = 5" "int_toString 5 = js ''5''"
    by code_simp+
  have w: "cache (snd example_worker) (js ''5'') = Some (js ''8'')"
    "map number (ledger (snd example_second)) = [5]"
    by code_simp+
  have "post_values (JNum 5) no_faults empty_store = (fst example_first, snd example_first)"
    "subscription [(js ''5'', False)] (snd example_first) = (fst example_worker, snd example_worker)"
    "post_values (JNum 5) no_faults (snd example_worker) = (fst example_second, snd example_second)"
    by (simp_all add: example_first_def example_worker_def example_second_def)
  from resubmission_idempotent [OF u this(1) st(1) this(2) this(3) st(2)]
  have r: "length (filter (\<lambda>r. number r = 5) (ledger (snd example_second))) = 1"
    "ledger (snd example_second) = ledger (snd example_first)"
    "cache (snd example_first) (js ''5'') = Some (js ''Calculating...'')"
    "cache (snd example_second) = (cache (snd example_worker))(js ''5'' \<mapsto> js ''Calculating...'')"
    unfolding n by blast+
  from r(4) have "cache (snd example_second) (js ''5'') = Some (js ''Calculating...'')"
    by simp
  then show ?thesis
    by (intro conjI u st w r(1-3))
qed

lemma decimal_digits_are_digits:
  "0 \<le> n \<Longrightarrow> \<forall>c \<in> set (decimal_digits n). is_digit c"
proof (induction n rule: decimal_digits.induct)
  case (1 n)
  show ?case
  proof (cases "n < 10")
    case True
    with 1 show ?thesis
      by (simp add: decimal_digits.simps [of n] is_digit_def)
  next
    case False
    then have "\<forall>c \<in> set (decimal_digits (n div 10)). is_digit c"
      using 1 by simp
    moreover have "is_digit (48 + n mod 10)"
      by (simp add: is_digit_def)
    ultimately show ?thesis
      using False by (simp add: decimal_digits.simps [of n])
  qed
qed

lemma placeholder_not_number: "0 \<le> n \<Longrightarrow> int_toString n \<noteq> js ''Calculating...''"
proof
  assume "0 \<le> n" and eq: "int_toString n = js ''Calculating...''"
  then have "\<forall>c \<in> set (js ''Calculating...''). is_digit c"
    using decimal_digits_are_digits [of n] by (simp add: int_toString_def)
  then show False
    by (simp add: js_def is_digit_def)
qed

lemma cache_ok_placeholder: "cache_ok c \<Longrightarrow> cache_ok (c(key \<mapsto> js ''Calculating...''))"
  by (simp add: cache_ok_def)

lemma cache_ok_result:
  "0 \<le> k \<Longrightarrow> k \<le> 40 \<Longrightarrow> cache_ok c \<Longrightarrow> cache_ok (c(int_toString k \<mapsto> int_toString (fib k)))"
  by (auto simp: cache_ok_def)

lemma post_values_writes:
  "cache (snd (post_values index f s)) key \<noteq> cache s key \<Longrightarrow>
     cache (snd (post_values index f s)) key = Some (js ''Calculating...'')"
proof (cases "first_failure index")
  case None
  assume "cache (snd (post_values index f s)) key \<noteq> cache s key"
  with post_values_passed(1) [OF None, of f s] show ?thesis
    by (auto split: if_splits)
next
  case (Some r)
  assume "cache (snd (post_values index f s)) key \<noteq> cache s key"
  with Some show ?thesis
    by (simp add: post_values_rejected)
qed

lemma on_message_writes:
  assumes "cache (snd (on_message rejects m s)) key \<noteq> cache s key"
  shows "\<exists>k \<in> {0..40}. key = int_toString k \<and>
           cache (snd (on_message rejects m s)) key = Some (int_toString (fib k))"
proof -
  from assms have r: "index_in_range (parseInt m)"
    by (auto simp: on_message_cases console_def split: if_splits)
  from in_range_toString [OF r] assms show ?thesis
    by (auto simp: on_message_cases console_def split: if_splits
        intro!: bexI [of _ "int_of_num (parseInt m)"])
qed

lemma cache_ok_step:
  assumes "cache_ok c"
    and "\<And>key. c' key \<noteq> c key \<Longrightarrow> c' key = Some (js ''Calculating...'') \<or>
           (\<exists>k \<in> {0..40}. key = int_toString k \<and> c' key = Some (int_toString (fib k)))"
  shows "cache_ok c'"
  unfolding cache_ok_def
proof (intro allI impI)
  fix key v
  assume v: "c' key = Some v"
  show "v = js ''Calculating...'' \<or> (\<exists>k \<in> {0..40}. key = int_toString k \<and> v = int_toString (fib k))"
  proof (cases "c' key = c key")
    case True
    with v assms(1) show ?thesis
      by (simp add: cache_ok_def)
  next
    case False
    from assms(2) [OF False] v show ?thesis
      by auto
  qed
qed

lemma step_cache_ok: "cache_ok (cache s) \<Longrightarrow> cache_ok (cache (step ev s))"
proof (cases ev)
  case (Request index f)
  assume "cache_ok (cache s)"
  then show ?thesis
    using post_values_writes [of index f s]
    by (auto simp: Request intro: cache_ok_step)
next
  case (Delivery m rejects)
  assume "cache_ok (cache s)"
  then show ?thesis
    using on_message_writes [of rejects m s]
    by (auto simp: Delivery intro: cache_ok_step)
qed

lemma run_cache_ok: "cache_ok (cache s) \<Longrightarrow> cache_ok (cache (run evs s))"
  unfolding run_def by (induction evs arbitrary: s) (simp_all add: step_cache_ok)

text \<open>
  Claim C10. Every value written to the Result Cache is either exactly the string
  \<open>Calculating...\<close> (the only value the gateway writes) or, under the key that is
  the decimal string of an index \<open>k\<close> from 0 to 40, the decimal string of \<open>fib k\<close>
  (the only values the worker writes). So the invariant \<open>cache_ok\<close> is preserved by
  every request and every delivered message, holds after any run from the empty cache,
  and the placeholder differs from every result string, so a reader can tell pending
  from completed entries.
\<close>

theorem cache_invariant:
  "(\<forall>key. cache (snd (post_values index f s)) key \<noteq> cache s key \<longrightarrow>
      cache (snd (post_values index f s)) key = Some (js ''Calculating...'')) \<and>
   (\<forall>key. cache (snd (on_message rejects m s)) key \<noteq> cache s key \<longrightarrow>
      (\<exists>k \<in> {0..40}. key = int_toString k \<and>
         cache (snd (on_message rejects m s)) key = Some (int_toString (fib k)))) \<and>
   (cache_ok (cache s) \<longrightarrow>
      cache_ok (cache (snd (post_values index f s))) \<and>
      cache_ok (cache (snd (on_message rejects m s))) \<and>
      cache_ok (cache (run evs s))) \<and>
   cache_ok (cache (run evs empty_store)) \<and>
   (\<forall>k \<in> {0..40}. int_toString (fib k) \<noteq> js ''Calculating...'')"
proof -
  have a: "\<forall>key. cache (snd (post_values index f s)) key \<noteq> cache s key \<longrightarrow>
      cache (snd (post_values index f s)) key = Some (js ''Calculating...'')"
    using post_values_writes by blast
  have b: "\<forall>key. cache (snd (on_message rejects m s)) key \<noteq> cache s key \<longrightarrow>
      (\<exists>k \<in> {0..40}. key = int_toString k \<and>
         cache (snd (on_message rejects m s)) key = Some (int_toString (fib k)))"
    using on_message_writes by blast
  have c: "cache_ok (cache s) \<longrightarrow>
      cache_ok (cache (snd (post_values index f s))) \<and>
      cache_ok (cache (snd (on_message rejects m s))) \<and>
      cache_ok (cache (run evs s))"
    using step_cache_ok [of s "Request index f"] step_cache_ok [of s "Delivery m rejects"]
      run_cache_ok [of s evs] by simp
  have "cache_ok (cache empty_store)"
    by (simp add: cache_ok_def empty_store_def)
  then have d: "cache_ok (cache (run evs empty_store))"
    by (rule run_cache_ok)
  have e: "\<forall>k \<in> {0..40}. int_toString (fib k) \<noteq> js ''Calculating...''"
    using fib_pos placeholder_not_number by (metis order_trans zero_le_one)
  show ?thesis
    by (intro conjI a b c d e)
qed

theorem cache_invariant_witness:
  "cache_ok (cache empty_store) \<and> cache_ok (cache example_run) \<and>
   cache example_run (js ''5'') = Some (js ''8'') \<and> int_toString (fib 5) = js ''8'' \<and>
   cache example_run (js ''6'') = Some (js ''Calculating...'') \<and>
   int_toString (fib 6) \<noteq> js ''Calculating...''"
proof -
  have a: "cache_ok (cache empty_store)"
    by (simp add: cache_ok_def empty_store_def)
  have b: "cache example_run (js ''5'') = Some (js ''8'')" "int_toString (fib 5) = js ''8''"
    "cache example_run (js ''6'') = Some (js ''Calculating...'')"
    by code_simp+
  note inv = cache_invariant [of "JNum 5" no_faults empty_store False "js ''5''"
      "[Request (JNum 5) no_faults, Delivery (js ''5'') False, Request (JStr (js ''6'')) no_faults]"]
  from inv a have c: "cache_ok (cache example_run)"
    unfolding example_run_def by blast
  from inv have "int_toString (fib 6) \<noteq> js ''Calculating...''"
    by simp
  with a b c show ?thesis
    by simp
qed

end
